theory Spec2Isabelle
  imports Complex_Main
begin

section \<open>Values of the expense tracker\<close>

text \<open>
  The development follows \<^verbatim>\<open>Tracker copy/pythonscript.py\<close>.

  A Python \<^verbatim>\<open>str\<close> is a sequence of Unicode code points and \<^verbatim>\<open>len\<close> counts code
  points, so a string is a list of code points here (the currency sign is one element).
\<close>

type_synonym ustr = "nat list"

definition u :: "string \<Rightarrow> ustr" where
  "u = map of_char"

definition EURO :: nat where
  "EURO = 8364"

definition NBSP :: nat where
  "NBSP = 160"

text \<open>
  A Python \<^verbatim>\<open>float\<close> is a finite number, an infinity or NaN. A finite float is modelled
  by the exact rational it denotes: the rounding of a decimal to the nearest binary double
  and the overflow of a large result to infinity are not part of the model.
\<close>

datatype pyfloat = Fin rat | PInf | NInf | NaN

datatype error = ValueError | KeyError | TypeError

fun isnan :: "pyfloat \<Rightarrow> bool" where
  "isnan NaN = True"
| "isnan _ = False"

fun fneg :: "pyfloat \<Rightarrow> pyfloat" where
  "fneg (Fin x) = Fin (- x)"
| "fneg PInf = NInf"
| "fneg NInf = PInf"
| "fneg NaN = NaN"

fun fabs :: "pyfloat \<Rightarrow> pyfloat" where
  "fabs (Fin x) = Fin \<bar>x\<bar>"
| "fabs PInf = PInf"
| "fabs NInf = PInf"
| "fabs NaN = NaN"

fun fadd :: "pyfloat \<Rightarrow> pyfloat \<Rightarrow> pyfloat" where
  "fadd (Fin x) (Fin y) = Fin (x + y)"
| "fadd NaN _ = NaN"
| "fadd _ NaN = NaN"
| "fadd PInf NInf = NaN"
| "fadd NInf PInf = NaN"
| "fadd PInf _ = PInf"
| "fadd _ PInf = PInf"
| "fadd NInf _ = NInf"
| "fadd _ NInf = NInf"

text \<open>\<^verbatim>\<open>v > 0\<close> on floats: false for NaN.\<close>

fun fpos :: "pyfloat \<Rightarrow> bool" where
  "fpos (Fin x) = (0 < x)"
| "fpos PInf = True"
| "fpos _ = False"

section \<open>Strings\<close>

definition is_digit :: "nat \<Rightarrow> bool" where
  "is_digit c = (48 \<le> c \<and> c \<le> 57)"

text \<open>\<^verbatim>\<open>str.isspace\<close> for one code point, which is what \<^verbatim>\<open>str.strip()\<close> removes.\<close>

definition uni_isspace :: "nat \<Rightarrow> bool" where
  "uni_isspace c =
     ((9 \<le> c \<and> c \<le> 13) \<or> (28 \<le> c \<and> c \<le> 32) \<or> c = 133 \<or> c = 160 \<or> c = 5760
      \<or> (8192 \<le> c \<and> c \<le> 8202) \<or> c = 8232 \<or> c = 8233 \<or> c = 8239 \<or> c = 8287
      \<or> c = 12288)"

definition strip :: "ustr \<Rightarrow> ustr" where
  "strip s = rev (dropWhile uni_isspace (rev (dropWhile uni_isspace s)))"

text \<open>\<^verbatim>\<open>s.replace(old, new)\<close> for a pattern \<^verbatim>\<open>old\<close> of one code point.\<close>

definition replace :: "nat \<Rightarrow> ustr \<Rightarrow> ustr \<Rightarrow> ustr" where
  "replace old new s = concat (map (\<lambda>c. if c = old then new else [c]) s)"

text \<open>\<^verbatim>\<open>x in s\<close> for a pattern of one code point.\<close>

definition contains :: "nat \<Rightarrow> ustr \<Rightarrow> bool" where
  "contains c s = (c \<in> set s)"

text \<open>Decimal digits of a natural number (\<^verbatim>\<open>str(n)\<close>) and back.\<close>

fun str_nat :: "nat \<Rightarrow> ustr" where
  "str_nat n = (if n < 10 then [48 + n] else str_nat (n div 10) @ [48 + n mod 10])"

declare str_nat.simps [simp del]

definition nat_of_digits :: "ustr \<Rightarrow> nat" where
  "nat_of_digits ds = foldl (\<lambda>a c. 10 * a + (c - 48)) 0 ds"

section \<open>The built-in conversion from a string to a float\<close>

text \<open>
  \<^verbatim>\<open>float(s)\<close> for a string: code points from 127 on are first mapped to ASCII (a space for
  white space, the digit for a Unicode decimal digit, and a question mark that ends the
  string for anything else); then ASCII white space is stripped at both ends, underscores
  between digits are dropped, and the rest must be, as a whole, a decimal literal with an
  optional sign, fraction and exponent, or one of inf, infinity, nan in any letter case.
  The table of Unicode decimal digits is the parameter \<open>td\<close>.
\<close>

fun transform :: "(nat \<Rightarrow> nat option) \<Rightarrow> ustr \<Rightarrow> ustr" where
  "transform td [] = []"
| "transform td (c # cs) =
     (if c < 127 then c # transform td cs
      else if uni_isspace c then 32 # transform td cs
      else (case td c of None \<Rightarrow> [63] | Some d \<Rightarrow> (48 + d) # transform td cs))"

definition ascii_isspace :: "nat \<Rightarrow> bool" where
  "ascii_isspace c = ((9 \<le> c \<and> c \<le> 13) \<or> c = 32)"

definition ascii_strip :: "ustr \<Rightarrow> ustr" where
  "ascii_strip s = rev (dropWhile ascii_isspace (rev (dropWhile ascii_isspace s)))"

fun underscores_ok :: "nat \<Rightarrow> ustr \<Rightarrow> bool" where
  "underscores_ok prev [] = (prev \<noteq> 95)"
| "underscores_ok prev (c # cs) =
     (if c = 95 then is_digit prev \<and> underscores_ok c cs
      else if prev = 95 then is_digit c \<and> underscores_ok c cs
      else underscores_ok c cs)"

definition split_sign :: "ustr \<Rightarrow> bool \<times> ustr" where
  "split_sign s =
     (case s of [] \<Rightarrow> (False, [])
      | c # r \<Rightarrow> if c = 45 then (True, r) else if c = 43 then (False, r) else (False, s))"

definition exponent :: "ustr \<Rightarrow> int \<times> ustr" where
  "exponent s =
     (case s of [] \<Rightarrow> (0, [])
      | c # t \<Rightarrow>
          if c = 101 \<or> c = 69 then
            (let (eneg, w) = split_sign t; ds = takeWhile is_digit w in
             if ds = [] then (0, s)
             else (if eneg then - int (nat_of_digits ds) else int (nat_of_digits ds),
                   dropWhile is_digit w))
          else (0, s))"

definition scale10 :: "rat \<Rightarrow> int \<Rightarrow> rat" where
  "scale10 m e = (if 0 \<le> e then m * 10 ^ nat e else m / 10 ^ nat (- e))"

text \<open>The unsigned decimal literal at the front of a string, with what follows it.\<close>

definition strtod :: "ustr \<Rightarrow> (rat \<times> ustr) option" where
  "strtod s =
     (let ip = takeWhile is_digit s; r1 = dropWhile is_digit s;
          (fp, r2) = (case r1 of [] \<Rightarrow> ([], [])
                      | c # t \<Rightarrow> if c = 46 then (takeWhile is_digit t, dropWhile is_digit t)
                                else ([], r1))
      in if ip = [] \<and> fp = [] then None
         else (let (e, r3) = exponent r2 in
               Some (scale10 (of_nat (nat_of_digits (ip @ fp)) / 10 ^ length fp) e, r3)))"

definition lower :: "ustr \<Rightarrow> ustr" where
  "lower s = map (\<lambda>c. if 65 \<le> c \<and> c \<le> 90 then c + 32 else c) s"

definition parse_inf_or_nan :: "bool \<Rightarrow> ustr \<Rightarrow> pyfloat option" where
  "parse_inf_or_nan neg s =
     (if lower s = u ''inf'' \<or> lower s = u ''infinity'' then Some (if neg then NInf else PInf)
      else if lower s = u ''nan'' then Some NaN
      else None)"

definition string_to_double :: "ustr \<Rightarrow> pyfloat option" where
  "string_to_double s =
     (let (neg, r) = split_sign s in
      case strtod r of
        Some (x, rest) \<Rightarrow> if rest = [] then Some (Fin (if neg then - x else x)) else None
      | None \<Rightarrow> parse_inf_or_nan neg r)"

definition float_py :: "(nat \<Rightarrow> nat option) \<Rightarrow> ustr \<Rightarrow> error + pyfloat" where
  "float_py td s =
     (let a = (if list_all (\<lambda>c. c < 128) s then s else transform td s);
          b = ascii_strip a
      in if underscores_ok 0 b then
           (case string_to_double (filter (\<lambda>c. c \<noteq> 95) b) of
              None \<Rightarrow> Inl ValueError
            | Some v \<Rightarrow> Inr v)
         else Inl ValueError)"

section \<open>The amount codec\<close>

text \<open>
  \<^verbatim>\<open>ExpenseTracker.parse_amount\<close>. The argument is optional because the source tests it
  against \<^verbatim>\<open>None\<close>. \<open>cleaned\<close> is the string after the source has stripped it and
  removed the currency sign, the spaces and the non-breaking spaces.
\<close>

definition cleaned :: "ustr \<Rightarrow> ustr" where
  "cleaned s0 = replace NBSP [] (replace 32 [] (replace EURO [] (strip s0)))"

definition parse_amount :: "(nat \<Rightarrow> nat option) \<Rightarrow> ustr option \<Rightarrow> error + pyfloat" where
  "parse_amount td so =
     (case so of
        None \<Rightarrow> Inl ValueError
      | Some s0 \<Rightarrow>
          (let s = cleaned s0
           in if s = [] then Inl ValueError
              else if contains 46 s \<and> contains 44 s then
                float_py td (replace 44 [46] (replace 46 [] s))
              else if contains 44 s \<and> \<not> contains 46 s then
                float_py td (replace 44 [46] s)
              else float_py td s))"

text \<open>
  The rule for a string with both separators in the words of the specification, to compare
  the code with: the periods are removed, the last comma becomes the decimal point, and
  the commas before it are removed.
\<close>

definition last_comma_decimal :: "ustr \<Rightarrow> ustr" where
  "last_comma_decimal s =
     (let t = replace 46 [] s;
          tail = rev (takeWhile (\<lambda>c. c \<noteq> 44) (rev t));
          front = rev (drop 1 (dropWhile (\<lambda>c. c \<noteq> 44) (rev t)))
      in replace 44 [] front @ [46] @ tail)"

text \<open>
  An input that carries no sign of its own: after any currency signs and blanks at its
  front comes a digit.
\<close>

definition starts_with_digit :: "ustr \<Rightarrow> bool" where
  "starts_with_digit t =
     (case dropWhile (\<lambda>c. c = EURO \<or> c = 32 \<or> c = NBSP) t of
        [] \<Rightarrow> False
      | c # _ \<Rightarrow> is_digit c)"

text \<open>
  The format specifications \<^verbatim>\<open>,.2f\<close> (grouping) and \<^verbatim>\<open>.2f\<close>: the value is rounded to two
  fractional digits, half to even on the exact value; the integer digits are grouped in
  threes from the right when grouping is asked for.
\<close>

definition round_half_even :: "rat \<Rightarrow> int" where
  "round_half_even q =
     (let f = \<lfloor>q\<rfloor>; d = q - of_int f in
      if d < 1 / 2 then f else if 1 / 2 < d then f + 1 else if even f then f else f + 1)"

definition cents :: "rat \<Rightarrow> nat" where
  "cents x = nat (round_half_even (\<bar>x\<bar> * 100))"

definition two_digits :: "nat \<Rightarrow> ustr" where
  "two_digits f = [48 + f div 10, 48 + f mod 10]"

fun group_rev :: "ustr \<Rightarrow> ustr" where
  "group_rev (a # b # c # d # r) = a # b # c # 44 # group_rev (d # r)"
| "group_rev r = r"

definition group3 :: "ustr \<Rightarrow> ustr" where
  "group3 ds = rev (group_rev (rev ds))"

fun format_f2 :: "bool \<Rightarrow> pyfloat \<Rightarrow> ustr" where
  "format_f2 g (Fin x) =
     (if x < 0 then [45] else [])
     @ (if g then group3 (str_nat (cents x div 100)) else str_nat (cents x div 100))
     @ [46] @ two_digits (cents x mod 100)"
| "format_f2 g PInf = u ''inf''"
| "format_f2 g NInf = u ''-inf''"
| "format_f2 g NaN = u ''nan''"

text \<open>\<^verbatim>\<open>ExpenseTracker.format_amount\<close>; 88 is the letter X.\<close>

definition format_amount :: "pyfloat \<Rightarrow> ustr" where
  "format_amount amount =
     (let s = format_f2 True amount;
          s = replace 88 [46] (replace 46 [44] (replace 44 [88] s))
      in s @ [EURO])"

text \<open>The three replacements of \<^verbatim>\<open>format_amount\<close> exchange comma and period.\<close>

definition exchange :: "nat \<Rightarrow> nat" where
  "exchange c = (if c = 44 then 46 else if c = 46 then 44 else c)"

section \<open>Records and the ledger\<close>

record expense =
  date :: ustr
  category :: ustr
  description :: ustr
  amount :: pyfloat

definition fieldnames :: "ustr list" where
  "fieldnames = [u ''date'', u ''category'', u ''description'', u ''amount'']"

text \<open>\<^verbatim>\<open>Expense.to_dict\<close>: a dictionary, in insertion order.\<close>

definition to_dict :: "expense \<Rightarrow> (ustr \<times> ustr) list" where
  "to_dict e =
     [(u ''date'', date e), (u ''category'', category e), (u ''description'', description e),
      (u ''amount'', format_f2 False (amount e))]"

text \<open>
  The backing file is modelled as the rows of cells that \<^verbatim>\<open>csv.DictWriter\<close> writes and
  \<^verbatim>\<open>csv.DictReader\<close> reads: the quoting of a cell on disk is the csv module's business.
  \<open>None\<close> is the absent file.
\<close>

type_synonym csvfile = "ustr list list"

record tracker =
  expenses :: "expense list"
  disk :: "csvfile option"

text \<open>\<^verbatim>\<open>DictWriter.writerow\<close>: the cells in the order of the field names, empty when missing.\<close>

definition writerow :: "ustr list \<Rightarrow> (ustr \<times> ustr) list \<Rightarrow> ustr list" where
  "writerow fns d = map (\<lambda>k. case map_of d k of None \<Rightarrow> [] | Some v \<Rightarrow> v) fns"

definition save_expenses :: "tracker \<Rightarrow> tracker" where
  "save_expenses t =
     t\<lparr>disk := Some (fieldnames # map (\<lambda>e. writerow fieldnames (to_dict e)) (expenses t))\<rparr>"

definition add_expense :: "expense \<Rightarrow> tracker \<Rightarrow> tracker" where
  "add_expense e t = save_expenses (t\<lparr>expenses := expenses t @ [e]\<rparr>)"

text \<open>
  A row as \<^verbatim>\<open>DictReader\<close> yields it: the header zipped with the cells, a short row filled
  up with \<^verbatim>\<open>None\<close>, a later duplicate of a key winning. Looking up a key that the header
  lacks raises \<^verbatim>\<open>KeyError\<close>.
\<close>

definition reader_get :: "ustr list \<Rightarrow> ustr list \<Rightarrow> ustr \<Rightarrow> error + ustr option" where
  "reader_get hdr row k =
     (case map_of (rev (zip hdr (map Some row @ replicate (length hdr - length row) None))) k of
        None \<Rightarrow> Inl KeyError
      | Some v \<Rightarrow> Inr v)"

text \<open>
  One row of \<^verbatim>\<open>load_expenses\<close>. \<^verbatim>\<open>float(None)\<close> raises \<^verbatim>\<open>TypeError\<close>. A text field that
  is \<^verbatim>\<open>None\<close> (a short row under a header that does not end in the amount) is stored as
  \<^verbatim>\<open>None\<close> by the source and fails at its first use; the model reports \<^verbatim>\<open>TypeError\<close> at once.
\<close>

definition load_row :: "(nat \<Rightarrow> nat option) \<Rightarrow> ustr list \<Rightarrow> ustr list \<Rightarrow> error + expense" where
  "load_row td hdr row =
     (case reader_get hdr row (u ''date'') of Inl e \<Rightarrow> Inl e | Inr d \<Rightarrow>
     (case reader_get hdr row (u ''category'') of Inl e \<Rightarrow> Inl e | Inr c \<Rightarrow>
     (case reader_get hdr row (u ''description'') of Inl e \<Rightarrow> Inl e | Inr ds \<Rightarrow>
     (case reader_get hdr row (u ''amount'') of Inl e \<Rightarrow> Inl e | Inr a \<Rightarrow>
     (case a of None \<Rightarrow> Inl TypeError | Some astr \<Rightarrow>
     (case float_py td astr of Inl e \<Rightarrow> Inl e | Inr v \<Rightarrow>
     (case (d, c, ds) of
        (Some d', Some c', Some ds') \<Rightarrow>
          Inr \<lparr>date = d', category = c', description = ds', amount = v\<rparr>
      | _ \<Rightarrow> Inl TypeError)))))))"

fun load_rows :: "(nat \<Rightarrow> nat option) \<Rightarrow> ustr list \<Rightarrow> csvfile \<Rightarrow> error + expense list" where
  "load_rows td hdr [] = Inr []"
| "load_rows td hdr (row # rows) =
     (if row = [] then load_rows td hdr rows
      else case load_row td hdr row of
             Inl e \<Rightarrow> Inl e
           | Inr x \<Rightarrow> (case load_rows td hdr rows of Inl e \<Rightarrow> Inl e | Inr xs \<Rightarrow> Inr (x # xs)))"

text \<open>
  \<^verbatim>\<open>DictReader\<close> takes the first row of the file as the header, also when it is blank;
  the blank rows after it are skipped by \<open>load_rows\<close>.
\<close>

definition load_expenses :: "(nat \<Rightarrow> nat option) \<Rightarrow> tracker \<Rightarrow> error + tracker" where
  "load_expenses td t =
     (case disk t of
        None \<Rightarrow> Inr t
      | Some rows \<Rightarrow>
          (case rows of
             [] \<Rightarrow> Inr (t\<lparr>expenses := []\<rparr>)
           | hdr # rs \<Rightarrow>
               (case load_rows td hdr rs of
                  Inl e \<Rightarrow> Inl e
                | Inr xs \<Rightarrow> Inr (t\<lparr>expenses := xs\<rparr>))))"

text \<open>\<^verbatim>\<open>ExpenseTracker.__init__\<close> on a given state of the file.\<close>

definition init_tracker :: "(nat \<Rightarrow> nat option) \<Rightarrow> csvfile option \<Rightarrow> error + tracker" where
  "init_tracker td d = load_expenses td \<lparr>expenses = [], disk = d\<rparr>"

text \<open>\<^verbatim>\<open>del xs[i]\<close> for an index in range.\<close>

definition del_at :: "nat \<Rightarrow> 'a list \<Rightarrow> 'a list" where
  "del_at i xs = take i xs @ drop (Suc i) xs"

definition delete_entry :: "int \<Rightarrow> tracker \<Rightarrow> bool \<times> tracker" where
  "delete_entry index t =
     (if index < 1 \<or> index > int (length (expenses t)) then (False, t)
      else (True, save_expenses (t\<lparr>expenses := del_at (nat (index - 1)) (expenses t)\<rparr>)))"

definition get_total :: "tracker \<Rightarrow> pyfloat" where
  "get_total t = foldl fadd (Fin 0) (map amount (expenses t))"

text \<open>
  Rounding to two fractional digits, as the format specification does it; what an amount
  is after it has been written with two fractional digits and read back; and a record as
  it comes back from the file.
\<close>

definition round2 :: "rat \<Rightarrow> rat" where
  "round2 x = of_int (round_half_even (x * 100)) / 100"

fun two_decimals :: "pyfloat \<Rightarrow> pyfloat" where
  "two_decimals (Fin x) = Fin (round2 x)"
| "two_decimals v = v"

definition reloaded :: "expense \<Rightarrow> expense" where
  "reloaded e = e\<lparr>amount := two_decimals (amount e)\<rparr>"

text \<open>Appending a sequence of records, one \<^verbatim>\<open>add_expense\<close> after the other.\<close>

definition add_all :: "expense list \<Rightarrow> tracker \<Rightarrow> tracker" where
  "add_all es t = foldl (\<lambda>t e. add_expense e t) t es"

definition fresh :: tracker where
  "fresh = \<lparr>expenses = [], disk = None\<rparr>"

definition coffee :: expense where
  "coffee =
     \<lparr>date = u ''2024-03-01'', category = u ''Food'', description = u ''Coffee, to go'',
      amount = Fin (- (1234 / 1000))\<rparr>"

section \<open>The table and the summary\<close>

text \<open>\<^verbatim>\<open>max(xs, default=d)\<close>.\<close>

definition max_default :: "nat list \<Rightarrow> nat \<Rightarrow> nat" where
  "max_default xs d = (case xs of [] \<Rightarrow> d | x # r \<Rightarrow> foldl max x r)"

record widths =
  nr_w :: nat
  date_w :: nat
  cat_w :: nat
  desc_w :: nat
  amt_w :: nat

text \<open>
  The column widths of \<^verbatim>\<open>view_expenses\<close>; \<open>None\<close> is the empty ledger, for which the
  source prints a notice and computes nothing.
\<close>

definition column_widths :: "tracker \<Rightarrow> widths option" where
  "column_widths t =
     (if expenses t = [] then None
      else
        (let all_amounts = map (\<lambda>e. format_amount (amount e)) (expenses t)
                           @ [format_amount (get_total t)]
         in Some
           \<lparr>nr_w = max (length (u ''Nr.'')) (length (str_nat (length (expenses t)))),
            date_w = max 10 (max_default (map (\<lambda>e. length (date e)) (expenses t)) 10),
            cat_w = max (length (u ''Kategorie''))
                      (max_default (map (\<lambda>e. length (category e)) (expenses t)) 8),
            desc_w = max (length (u ''Beschreibung''))
                       (max_default (map (\<lambda>e. length (description e)) (expenses t)) 30),
            amt_w = max (length (u ''Betrag'')) (max_default (map length all_amounts) 12)\<rparr>))"

text \<open>A Python dictionary in insertion order: \<^verbatim>\<open>d.get(k, default)\<close> and \<^verbatim>\<open>d[k] = v\<close>.\<close>

definition dict_get :: "('k \<times> 'v) list \<Rightarrow> 'k \<Rightarrow> 'v \<Rightarrow> 'v" where
  "dict_get d k dflt = (case map_of d k of None \<Rightarrow> dflt | Some v \<Rightarrow> v)"

fun dict_set :: "('k \<times> 'v) list \<Rightarrow> 'k \<Rightarrow> 'v \<Rightarrow> ('k \<times> 'v) list" where
  "dict_set [] k v = [(k, v)]"
| "dict_set (p # ps) k v = (if fst p = k then (k, v) # ps else p # dict_set ps k v)"

text \<open>The loop of \<^verbatim>\<open>plot_summary\<close> over the ledger; the integer 0 it starts from is \<open>Fin 0\<close>.\<close>

fun category_totals :: "(ustr \<times> pyfloat) list \<Rightarrow> expense list \<Rightarrow> (ustr \<times> pyfloat) list" where
  "category_totals d [] = d"
| "category_totals d (e # es) =
     (if isnan (amount e) then category_totals d es
      else category_totals
             (dict_set d (category e) (fadd (dict_get d (category e) (Fin 0)) (amount e))) es)"

datatype plot_result = NoData | NoPositive | Pie "(ustr \<times> pyfloat) list"

definition plot_summary :: "tracker \<Rightarrow> plot_result" where
  "plot_summary t =
     (if expenses t = [] then NoData
      else
        (let filtered = filter (\<lambda>(k, v). \<not> isnan v \<and> fpos v) (category_totals [] (expenses t))
         in if filtered = [] then NoPositive else Pie filtered))"

text \<open>
  The aggregation in the words of the specification, to compare the loop with: the
  categories in the order of their first record, the sum of the amounts of a category taken
  in ledger order, and the categories kept for the chart. An amount that is NaN takes no
  part.
\<close>

fun first_occurrences :: "'a list \<Rightarrow> 'a list" where
  "first_occurrences [] = []"
| "first_occurrences (x # xs) = x # filter (\<lambda>y. y \<noteq> x) (first_occurrences xs)"

definition category_sum :: "expense list \<Rightarrow> ustr \<Rightarrow> pyfloat" where
  "category_sum xs c =
     foldl fadd (Fin 0) (map amount (filter (\<lambda>e. category e = c \<and> \<not> isnan (amount e)) xs))"

definition plottable :: "expense list \<Rightarrow> (ustr \<times> pyfloat) list" where
  "plottable xs =
     map (\<lambda>c. (c, category_sum xs c))
       (filter (\<lambda>c. fpos (category_sum xs c))
          (first_occurrences (map category (filter (\<lambda>e. \<not> isnan (amount e)) xs))))"

fun is_finite :: "pyfloat \<Rightarrow> bool" where
  "is_finite (Fin x) = True"
| "is_finite _ = False"

section \<open>Entering a record\<close>

text \<open>
  The keys of the table \<^verbatim>\<open>TEXTS\<close>; every entry has both languages, so that
  \<^verbatim>\<open>TEXTS[key][lang]\<close> raises \<^verbatim>\<open>KeyError\<close> exactly for a key that is not listed.
\<close>

definition TEXTS :: "string list" where
  "TEXTS =
     [''title'', ''opt1'', ''opt2'', ''opt3'', ''opt4'', ''opt5'', ''opt6'', ''opt7'',
      ''choose'', ''enter_date'', ''invalid_date'', ''enter_category'', ''enter_description'',
      ''enter_amount'', ''invalid_amount'', ''saved'', ''press_enter'', ''goodbye'',
      ''delete_prompt'', ''admin_pw_prompt'', ''pw_wrong'', ''delete_success'',
      ''delete_invalid'', ''login_user'', ''login_pw'', ''login_fail'',
      ''select_sign'', ''income_label'', ''expense_label'']"

definition texts :: "string \<Rightarrow> error + unit" where
  "texts k = (if k \<in> set TEXTS then Inr () else Inl KeyError)"

text \<open>The polarity step of \<^verbatim>\<open>main_menu\<close>, on the stripped answer to the sign prompt.\<close>

definition apply_sign :: "ustr \<Rightarrow> pyfloat \<Rightarrow> error + pyfloat" where
  "apply_sign sign amt =
     (case (if sign \<noteq> u ''+'' \<and> sign \<noteq> u ''-''
            then (case texts ''sign_invalid'' of Inl e \<Rightarrow> Inl e | Inr _ \<Rightarrow> Inr (u ''-''))
            else Inr sign) of
        Inl e \<Rightarrow> Inl e
      | Inr sign' \<Rightarrow> Inr (if sign' = u ''-'' then fneg (fabs amt) else fabs amt))"

text \<open>
  Choice 1 of \<^verbatim>\<open>main_menu\<close> from the category prompt on, for a date that has passed its
  check. An amount that does not parse is answered by a message and the menu again, the
  ledger as it was; an exception that nothing catches leaves the menu, and is the error.
\<close>

definition menu_add ::
  "(nat \<Rightarrow> nat option) \<Rightarrow> ustr \<Rightarrow> ustr \<Rightarrow> ustr \<Rightarrow> ustr \<Rightarrow> ustr \<Rightarrow> tracker \<Rightarrow> error + tracker" where
  "menu_add td dt category_in description_in amount_in sign_in t =
     (case parse_amount td (Some (strip amount_in)) of
        Inl _ \<Rightarrow> Inr t
      | Inr amt \<Rightarrow>
          (case apply_sign (strip sign_in) amt of
             Inl e \<Rightarrow> Inl e
           | Inr a \<Rightarrow>
               Inr (add_expense
                      \<lparr>date = dt, category = strip category_in,
                       description = strip description_in, amount = a\<rparr> t)))"

section \<open>A small ledger\<close>

definition groceries :: expense where
  "groceries =
     \<lparr>date = u ''2024-01-05'', category = u ''Food'', description = u ''Groceries'',
      amount = Fin (- 20)\<rparr>"

definition snack :: expense where
  "snack =
     \<lparr>date = u ''2024-1-7'', category = u ''Food'', description = u ''Snack'',
      amount = Fin (- 5)\<rparr>"

definition salary :: expense where
  "salary =
     \<lparr>date = u ''2024-01-31'', category = u ''Job'', description = u ''Salary for January'',
      amount = Fin (12345 / 10)\<rparr>"

definition demo :: tracker where
  "demo = \<lparr>expenses = [groceries, snack, salary], disk = None\<rparr>"

text \<open>The amounts and the categories that the loop of \<^verbatim>\<open>plot_summary\<close> sees.\<close>

definition amounts_of :: "expense list \<Rightarrow> ustr \<Rightarrow> pyfloat list" where
  "amounts_of xs c = map amount (filter (\<lambda>e. category e = c \<and> \<not> isnan (amount e)) xs)"

definition cats_of :: "expense list \<Rightarrow> ustr list" where
  "cats_of xs = map category (filter (\<lambda>e. \<not> isnan (amount e)) xs)"

definition windfall :: expense where
  "windfall =
     \<lparr>date = u ''2024-02-01'', category = u ''Food'', description = u ''Found'',
      amount = PInf\<rparr>"

section \<open>Evaluation of the codec on concrete strings\<close>

lemmas codec_defs =
  parse_amount_def cleaned_def u_def strip_def uni_isspace_def replace_def contains_def EURO_def NBSP_def
  float_py_def ascii_strip_def ascii_isspace_def string_to_double_def split_sign_def
  strtod_def is_digit_def exponent_def scale10_def nat_of_digits_def lower_def
  parse_inf_or_nan_def

text \<open>
  C1. The four examples of the docstring of \<^verbatim>\<open>parse_amount\<close>: "1,50" gives 1.5, and
  "1.234,50", "1234.50" and the same with the currency sign and a space in front
  give 1234.5.
\<close>

theorem parse_amount_examples:
  "parse_amount td (Some (u ''1,50'')) = Inr (Fin (15 / 10))
   \<and> parse_amount td (Some (u ''1.234,50'')) = Inr (Fin (12345 / 10))
   \<and> parse_amount td (Some (u ''1234.50'')) = Inr (Fin (12345 / 10))
   \<and> parse_amount td (Some ([EURO, 32] @ u ''1.234,50'')) = Inr (Fin (12345 / 10))"
  by (simp add: codec_defs)

section \<open>Deleting by position\<close>

lemma nth_del_at:
  "i < length xs \<Longrightarrow>
   length (del_at i xs) = length xs - 1
   \<and> (\<forall>j < i. del_at i xs ! j = xs ! j)
   \<and> (\<forall>j. i \<le> j \<and> j < length xs - 1 \<longrightarrow> del_at i xs ! j = xs ! Suc j)
   \<and> xs = take i (del_at i xs) @ xs ! i # drop i (del_at i xs)"
  by (auto simp: del_at_def nth_append min_def id_take_nth_drop[symmetric])

text \<open>
  C5. For a ledger of length L and a 1-based position: outside 1..L, \<^verbatim>\<open>delete_entry\<close>
  returns \<open>False\<close> and leaves the ledger and the file as they were; inside, it returns \<open>True\<close>,
  the new length is L - 1, the ledger without the record that stood at the position is the
  new ledger (the records before it stay, the records after it move down by one), and the
  file holds the new ledger.
\<close>

theorem delete_entry_positions:
  "(index < 1 \<or> int (length (expenses t)) < index \<longrightarrow> delete_entry index t = (False, t))
   \<and> (1 \<le> index \<and> index \<le> int (length (expenses t)) \<longrightarrow>
        (let t' = snd (delete_entry index t); p = nat index in
         fst (delete_entry index t)
         \<and> length (expenses t') = length (expenses t) - 1
         \<and> expenses t
             = take (p - 1) (expenses t') @ expenses t ! (p - 1) # drop (p - 1) (expenses t')
         \<and> (\<forall>j. j < p - 1 \<longrightarrow> expenses t' ! j = expenses t ! j)
         \<and> (\<forall>j. p - 1 \<le> j \<and> j < length (expenses t) - 1 \<longrightarrow>
                expenses t' ! j = expenses t ! Suc j)
         \<and> disk t'
             = Some (fieldnames # map (\<lambda>e. writerow fieldnames (to_dict e)) (expenses t'))))"
proof (intro conjI impI)
  assume "index < 1 \<or> int (length (expenses t)) < index"
  then show "delete_entry index t = (False, t)"
    by (auto simp: delete_entry_def)
next
  assume a: "1 \<le> index \<and> index \<le> int (length (expenses t))"
  then have i: "nat (index - 1) < length (expenses t)" and e: "nat index - 1 = nat (index - 1)"
    by auto
  have d: "delete_entry index t
      = (True, save_expenses (t\<lparr>expenses := del_at (nat (index - 1)) (expenses t)\<rparr>))"
    using a by (auto simp: delete_entry_def)
  show "let t' = snd (delete_entry index t); p = nat index in
         fst (delete_entry index t)
         \<and> length (expenses t') = length (expenses t) - 1
         \<and> expenses t
             = take (p - 1) (expenses t') @ expenses t ! (p - 1) # drop (p - 1) (expenses t')
         \<and> (\<forall>j. j < p - 1 \<longrightarrow> expenses t' ! j = expenses t ! j)
         \<and> (\<forall>j. p - 1 \<le> j \<and> j < length (expenses t) - 1 \<longrightarrow>
                expenses t' ! j = expenses t ! Suc j)
         \<and> disk t'
             = Some (fieldnames # map (\<lambda>e. writerow fieldnames (to_dict e)) (expenses t'))"
    using nth_del_at[OF i] unfolding d Let_def e
    by (simp add: save_expenses_def)
qed

theorem delete_entry_positions_witness:
  "delete_entry 0 demo = (False, demo) \<and> delete_entry 4 demo = (False, demo)
   \<and> fst (delete_entry 2 demo) \<and> expenses (snd (delete_entry 2 demo)) = [groceries, salary]
   \<and> expenses demo ! 1 = snack"
  using delete_entry_positions[of 0 demo] delete_entry_positions[of 4 demo]
    delete_entry_positions[of 2 demo]
  by (simp add: demo_def Let_def delete_entry_def del_at_def save_expenses_def)

section \<open>The polarity of an entry\<close>

lemma apply_sign_cases:
  "apply_sign s m =
     (if s = u ''+'' then Inr (fabs m)
      else if s = u ''-'' then Inr (fneg (fabs m))
      else Inl KeyError)"
  by (simp add: apply_sign_def texts_def TEXTS_def u_def)

text \<open>
  C8. The amount stored for a parsed magnitude m is |m| for the token "+" and -|m| for the
  token "-". For any other token the source looks up the message \<^verbatim>\<open>sign_invalid\<close>, which
  the table \<^verbatim>\<open>TEXTS\<close> does not have, before it reaches its default: the menu ends with
  \<^verbatim>\<open>KeyError\<close> and nothing is stored. Here for the magnitude 5 and the token "x".
\<close>

theorem apply_sign_invalid_token:
  "apply_sign (u ''+'') (Fin 5) = Inr (Fin 5)
   \<and> apply_sign (u ''-'') (Fin 5) = Inr (Fin (- 5))
   \<and> apply_sign (u ''x'') (Fin 5) = Inl KeyError
   \<and> menu_add td dt c d (u ''5'') (u ''x'') t = Inl KeyError"
  by (simp add: menu_add_def apply_sign_def texts_def TEXTS_def codec_defs)

section \<open>The summary by category\<close>

lemma dict_absent:
  "k \<notin> fst ` set d \<Longrightarrow> dict_set d k v = d @ [(k, v)] \<and> dict_get d k z = z"
  by (induction d) (auto simp: dict_get_def)

lemma dict_present:
  "k \<in> fst ` set d \<Longrightarrow> distinct (map fst d) \<Longrightarrow>
   dict_set d k (f (dict_get d k z)) = map (\<lambda>(c, w). if c = k then (c, f w) else (c, w)) d"
proof (induction d)
  case Nil
  then show ?case by simp
next
  case (Cons p d)
  show ?case
  proof (cases "fst p = k")
    case True
    then have "k \<notin> fst ` set d" using Cons.prems by auto
    then have "map (\<lambda>(c, w). if c = k then (c, f w) else (c, w)) d = d"
      by (induction d) auto
    with True show ?thesis by (cases p) (simp add: dict_get_def)
  next
    case False
    then have "dict_get (p # d) k z = dict_get d k z"
      by (cases p) (simp add: dict_get_def)
    with False Cons show ?thesis by (cases p) auto
  qed
qed

lemma category_totals_general:
  "distinct (map fst d) \<Longrightarrow>
   category_totals d es =
     map (\<lambda>(c, v). (c, foldl fadd v (amounts_of es c))) d
     @ map (\<lambda>c. (c, foldl fadd (Fin 0) (amounts_of es c)))
         (filter (\<lambda>c. c \<notin> fst ` set d) (first_occurrences (cats_of es)))"
proof (induction es arbitrary: d)
  case Nil
  then show ?case by (simp add: amounts_of_def cats_of_def)
next
  case (Cons e es)
  show ?case
  proof (cases "isnan (amount e)")
    case True
    then have "amounts_of (e # es) = amounts_of es" "cats_of (e # es) = cats_of es"
      by (auto simp: amounts_of_def cats_of_def)
    with True Cons show ?thesis by simp
  next
    case False
    let ?k = "category e"
    let ?a = "amount e"
    have am: "amounts_of (e # es) c = (if c = ?k then ?a # amounts_of es c else amounts_of es c)" for c
      using False by (auto simp: amounts_of_def)
    have ca: "cats_of (e # es) = ?k # cats_of es"
      using False by (simp add: cats_of_def)
    show ?thesis
    proof (cases "?k \<in> fst ` set d")
      case True
      let ?d' = "map (\<lambda>(c, w). if c = ?k then (c, fadd w ?a) else (c, w)) d"
      have d': "dict_set d ?k (fadd (dict_get d ?k (Fin 0)) ?a) = ?d'"
        using dict_present[OF True Cons.prems, of "\<lambda>w. fadd w ?a" "Fin 0"] .
      have keys: "map fst ?d' = map fst d"
        by (induction d) auto
      have dist: "distinct (map fst ?d')" unfolding keys by (rule Cons.prems)
      have keyset: "fst ` set ?d' = fst ` set d"
        using keys by (metis list.set_map)
      have "category_totals d (e # es) = category_totals ?d' es"
        using False d' by simp
      also have "\<dots> = map (\<lambda>(c, v). (c, foldl fadd v (amounts_of es c))) ?d'
         @ map (\<lambda>c. (c, foldl fadd (Fin 0) (amounts_of es c)))
             (filter (\<lambda>c. c \<notin> fst ` set d) (first_occurrences (cats_of es)))"
        using Cons.IH[OF dist] keyset by simp
      also have "map (\<lambda>(c, v). (c, foldl fadd v (amounts_of es c))) ?d'
          = map (\<lambda>(c, v). (c, foldl fadd v (amounts_of (e # es) c))) d"
        by (auto simp: am)
      also have "map (\<lambda>c. (c, foldl fadd (Fin 0) (amounts_of es c)))
             (filter (\<lambda>c. c \<notin> fst ` set d) (first_occurrences (cats_of es)))
         = map (\<lambda>c. (c, foldl fadd (Fin 0) (amounts_of (e # es) c)))
             (filter (\<lambda>c. c \<notin> fst ` set d) (first_occurrences (cats_of (e # es))))"
      proof -
        have "filter (\<lambda>c. c \<notin> fst ` set d) (first_occurrences (cats_of (e # es)))
            = filter (\<lambda>c. c \<notin> fst ` set d) (first_occurrences (cats_of es))"
          using True by (auto simp: ca intro: filter_cong)
        moreover have "\<And>c. c \<notin> fst ` set d \<Longrightarrow> amounts_of (e # es) c = amounts_of es c"
          using True by (auto simp: am)
        ultimately show ?thesis by (auto intro: map_cong)
      qed
      finally show ?thesis .
    next
      case absent: False
      let ?d' = "d @ [(?k, fadd (Fin 0) ?a)]"
      have d': "dict_set d ?k (fadd (dict_get d ?k (Fin 0)) ?a) = ?d'"
        using dict_absent[OF absent] by simp
      have dist: "distinct (map fst ?d')" using Cons.prems absent by auto
      have "category_totals d (e # es) = category_totals ?d' es"
        using False d' by simp
      also have "\<dots> = map (\<lambda>(c, v). (c, foldl fadd v (amounts_of es c))) ?d'
         @ map (\<lambda>c. (c, foldl fadd (Fin 0) (amounts_of es c)))
             (filter (\<lambda>c. c \<notin> fst ` set ?d') (first_occurrences (cats_of es)))"
        using Cons.IH[OF dist] .
      also have "\<dots> = map (\<lambda>(c, v). (c, foldl fadd v (amounts_of (e # es) c))) d
         @ map (\<lambda>c. (c, foldl fadd (Fin 0) (amounts_of (e # es) c)))
             (filter (\<lambda>c. c \<notin> fst ` set d) (first_occurrences (cats_of (e # es))))"
      proof -
        have 1: "map (\<lambda>(c, v). (c, foldl fadd v (amounts_of es c))) d
           = map (\<lambda>(c, v). (c, foldl fadd v (amounts_of (e # es) c))) d"
          using absent by (auto simp: am image_iff)
        have 2: "filter (\<lambda>c. c \<notin> fst ` set ?d') (first_occurrences (cats_of es))
           = filter (\<lambda>c. c \<notin> fst ` set d) (filter (\<lambda>y. y \<noteq> ?k) (first_occurrences (cats_of es)))"
          by (auto intro: filter_cong)
        have 3: "map (\<lambda>c. (c, foldl fadd (Fin 0) (amounts_of es c)))
                   (filter (\<lambda>c. c \<notin> fst ` set d) (filter (\<lambda>y. y \<noteq> ?k) (first_occurrences (cats_of es))))
           = map (\<lambda>c. (c, foldl fadd (Fin 0) (amounts_of (e # es) c)))
                   (filter (\<lambda>c. c \<notin> fst ` set d) (filter (\<lambda>y. y \<noteq> ?k) (first_occurrences (cats_of es))))"
          by (auto simp: am)
        show ?thesis
          unfolding 2 3 using absent 1 by (simp add: ca am)
      qed
      finally show ?thesis .
    qed
  qed
qed

lemma category_totals_plottable:
  "filter (\<lambda>(k, v). \<not> isnan v \<and> fpos v) (category_totals [] xs) = plottable xs"
proof -
  have p: "(\<not> isnan v \<and> fpos v) = fpos v" for v by (cases v) auto
  have "category_totals [] xs
      = map (\<lambda>c. (c, category_sum xs c)) (first_occurrences (cats_of xs))"
    using category_totals_general[of "[]" xs]
    by (simp add: amounts_of_def category_sum_def)
  then show ?thesis
    by (simp add: plottable_def cats_of_def filter_map comp_def p)
qed

text \<open>
  What \<^verbatim>\<open>plot_summary\<close> computes: the records grouped by category, per category the sum of
  the amounts that are not NaN, and the chart of the categories whose sum passes the test
  \<^verbatim>\<open>not math.isnan(v) and v > 0\<close>; an empty ledger, and a ledger none of whose categories
  passes, give a notice and no chart. The two entries Food -20 and Food -5 give no chart.
\<close>

lemma plot_summary_aggregation:
  "plot_summary t =
     (if expenses t = [] then NoData
      else if plottable (expenses t) = [] then NoPositive
      else Pie (plottable (expenses t)))
   \<and> plot_summary \<lparr>expenses = [groceries, snack], disk = f\<rparr> = NoPositive"
proof -
  have ex: "plot_summary \<lparr>expenses = [groceries, snack], disk = f\<rparr> = NoPositive"
    by (simp add: plot_summary_def groceries_def snack_def dict_get_def)
  show ?thesis
    unfolding ex by (simp add: plot_summary_def category_totals_plottable)
qed

text \<open>
  C6. The summary is to keep exactly the categories whose sum is finite and greater than
  zero, and the comments of \<^verbatim>\<open>plot_summary\<close> say that only valid positive amounts are
  charted; its test excludes NaN and misses infinity. The entry with the amount input
  "inf" and the sign "+" is stored with the amount plus infinity, and the ledger that
  holds it is charted with the category Food and a sum that is not finite.
\<close>

theorem plot_summary_infinite_total:
  "menu_add Map.empty (date windfall) (category windfall) (description windfall) (u ''inf'')
       (u ''+'') fresh
     = Inr (add_expense windfall fresh)
   \<and> plot_summary (add_expense windfall fresh)
       = Pie [(u ''Food'', category_sum [windfall] (u ''Food''))]
   \<and> category_sum [windfall] (u ''Food'') = PInf
   \<and> \<not> is_finite (category_sum [windfall] (u ''Food''))"
proof -
  have m: "menu_add Map.empty (date windfall) (category windfall) (description windfall)
       (u ''inf'') (u ''+'') fresh = Inr (add_expense windfall fresh)"
    by (simp add: menu_add_def apply_sign_def windfall_def codec_defs)
  have p: "plot_summary (add_expense windfall fresh)
       = Pie [(u ''Food'', category_sum [windfall] (u ''Food''))]"
    by (simp add: plot_summary_def add_expense_def save_expenses_def fresh_def dict_get_def
        windfall_def category_sum_def)
  have c: "category_sum [windfall] (u ''Food'') = PInf"
    by (simp add: category_sum_def windfall_def)
  show ?thesis using m p c by simp
qed

section \<open>The widths of the table\<close>

lemma foldl_max_Max: "foldl max a r = Max (set (a # r))"
proof (induction r arbitrary: a)
  case Nil
  then show ?case by simp
next
  case (Cons b r)
  have "Max (insert a (insert b (set r))) = Max (insert (max a b) (set r))"
    by (cases "set r = {}") (auto simp: max.assoc)
  with Cons show ?case by simp
qed

lemma max_default_Max: "xs \<noteq> [] \<Longrightarrow> max_default xs d = Max (set xs)"
  by (cases xs) (simp_all add: max_default_def foldl_max_Max del: foldl_Cons)

lemma length_str_nat:
  "length (str_nat n) = (if n < 10 then 1 else Suc (length (str_nat (n div 10))))"
  by (subst str_nat.simps) simp

lemma str_nat_length_mono: "i \<le> n \<Longrightarrow> length (str_nat i) \<le> length (str_nat n)"
proof (induction n arbitrary: i rule: str_nat.induct)
  case (1 n)
  show ?case
  proof (cases "n < 10")
    case True
    with 1 show ?thesis by (simp add: length_str_nat)
  next
    case False
    show ?thesis
    proof (cases "i < 10")
      case True
      with False show ?thesis by (simp add: length_str_nat)
    next
      case i: False
      have "i div 10 \<le> n div 10" using "1.prems" by (simp add: div_le_mono)
      then have "length (str_nat (i div 10)) \<le> length (str_nat (n div 10))"
        using "1.IH" False by simp
      with False i show ?thesis by (simp add: length_str_nat)
    qed
  qed
qed

lemma Max_row_numbers:
  "0 < n \<Longrightarrow> Max ((\<lambda>i. length (str_nat i)) ` {Suc 0..n}) = length (str_nat n)"
  by (rule Max_eqI) (auto simp: str_nat_length_mono)

text \<open>
  C7, as the code has it. For a ledger that is not empty, the width of a column is the
  larger of the length of its header label and the greatest length of a cell in it (the
  row numbers 1 to n, the categories, the descriptions, the formatted amounts together
  with the formatted total); the date column is the exception: its lower bound is the
  constant 10, the length of an ISO date, and not the length of its label.
\<close>

theorem column_widths_maxima:
  "expenses t \<noteq> [] \<Longrightarrow>
   column_widths t = Some
     \<lparr>nr_w = max (length (u ''Nr.''))
               (Max ((\<lambda>i. length (str_nat i)) ` {1..length (expenses t)})),
      date_w = max 10 (Max ((\<lambda>e. length (date e)) ` set (expenses t))),
      cat_w = max (length (u ''Kategorie''))
                (Max ((\<lambda>e. length (category e)) ` set (expenses t))),
      desc_w = max (length (u ''Beschreibung''))
                 (Max ((\<lambda>e. length (description e)) ` set (expenses t))),
      amt_w = max (length (u ''Betrag''))
                (Max (insert (length (format_amount (get_total t)))
                        ((\<lambda>e. length (format_amount (amount e))) ` set (expenses t))))\<rparr>"
proof -
  assume ne: "expenses t \<noteq> []"
  then have n: "0 < length (expenses t)" by simp
  have un: "A \<union> {x} = insert x A" for A :: "nat set" and x by simp
  show ?thesis
    using ne by (simp add: column_widths_def max_default_Max Max_row_numbers[OF n] image_image un
        del: Max_insert)
qed

theorem column_widths_maxima_witness:
  "expenses demo \<noteq> []
   \<and> column_widths demo = Some \<lparr>nr_w = 3, date_w = 10, cat_w = 9, desc_w = 18, amt_w = 9\<rparr>"
  using column_widths_maxima[of demo]
  by (simp add: demo_def snack_def groceries_def salary_def u_def get_total_def
      format_amount_def cents_def round_half_even_def str_nat.simps two_digits_def group3_def
      replace_def)

text \<open>
  C7 as stated would make the date column as wide as the larger of the label "Datum" and
  the longest date. For a single record dated 2024-1-7 that is 8, and the code takes 10.
\<close>

theorem column_widths_date_minimum:
  "map_option date_w (column_widths \<lparr>expenses = [snack], disk = None\<rparr>) = Some 10
   \<and> max (length (u ''Datum'')) (Max ((\<lambda>e. length (date e)) ` set [snack])) = 8"
  by (simp add: column_widths_def snack_def max_default_def u_def)

section \<open>Separators in an amount\<close>

text \<open>
  A string that \<^verbatim>\<open>float\<close> accepts has at most one period: the sign, the digits, the
  exponent and the letters of inf and nan have none, and the mapping of the other code
  points to ASCII makes none.
\<close>

lemma replace_nil: "replace c [] s = filter (\<lambda>x. x \<noteq> c) s"
  by (induction s) (auto simp: replace_def)

lemma replace_one: "replace c [d] s = map (\<lambda>x. if x = c then d else x) s"
  by (induction s) (auto simp: replace_def)

lemma replace_absent: "c \<notin> set s \<Longrightarrow> replace c new s = s"
  by (induction s) (auto simp: replace_def)

lemma count_dropWhile: "\<not> P c \<Longrightarrow> count_list (dropWhile P s) c = count_list s c"
  by (induction s) auto

lemma count_filter: "P c \<Longrightarrow> count_list (filter P s) c = count_list s c"
  by (induction s) auto

lemma set_dropWhile_keep: "\<not> P c \<Longrightarrow> c \<in> set (dropWhile P s) \<longleftrightarrow> c \<in> set s"
  by (induction s) auto

lemma ascii_strip_keeps:
  "\<not> ascii_isspace c \<Longrightarrow>
   count_list (ascii_strip s) c = count_list s c \<and> (c \<in> set (ascii_strip s) \<longleftrightarrow> c \<in> set s)"
  by (simp add: ascii_strip_def count_dropWhile set_dropWhile_keep)

lemma digits_free:
  "\<forall>x\<in>set w. is_digit x \<Longrightarrow> \<not> is_digit c \<Longrightarrow> count_list w c = 0"
  by (induction w) auto

lemma split_sign_keeps:
  "split_sign s = (neg, r) \<Longrightarrow> c \<noteq> 45 \<Longrightarrow> c \<noteq> 43 \<Longrightarrow> count_list s c = count_list r c"
  by (auto simp: split_sign_def split: list.splits if_splits)

lemma exponent_whole:
  assumes "exponent s = (e, [])" and "\<not> is_digit c" and "c \<notin> {43, 45, 69, 101}"
  shows "count_list s c = 0"
proof (cases s)
  case Nil
  then show ?thesis by simp
next
  case (Cons a t)
  obtain eneg w where sp: "split_sign t = (eneg, w)" by (cases "split_sign t")
  from assms(1) Cons sp have a: "a = 101 \<or> a = 69" and w: "dropWhile is_digit w = []"
    by (auto simp: exponent_def Let_def split: if_splits)
  from w have "count_list w c = 0" using digits_free assms(2) by auto
  moreover have "count_list t c = count_list w c"
    using split_sign_keeps[OF sp] assms(3) by simp
  ultimately show ?thesis using Cons a assms(3) by auto
qed

lemma strtod_whole:
  assumes "strtod s = Some (x, [])" and "\<not> is_digit c" and "c \<notin> {43, 45, 69, 101}"
  shows "count_list s c \<le> (if c = 46 then 1 else 0)"
proof -
  let ?ip = "takeWhile is_digit s" and ?r1 = "dropWhile is_digit s"
  have s: "s = ?ip @ ?r1" by simp
  have ip: "count_list ?ip c = 0"
    using digits_free[of ?ip c] assms(2) by (auto dest: set_takeWhileD)
  have "count_list ?r1 c \<le> (if c = 46 then 1 else 0)"
  proof (cases ?r1)
    case Nil
    show ?thesis unfolding Nil by simp
  next
    case (Cons a t)
    show ?thesis
    proof (cases "a = 46")
      case True
      let ?fp = "takeWhile is_digit t" and ?r2 = "dropWhile is_digit t"
      from assms(1) Cons True obtain e where "exponent ?r2 = (e, [])"
        by (auto simp: strtod_def Let_def split: if_splits prod.splits)
      then have "count_list ?r2 c = 0" using exponent_whole assms(2,3) by blast
      moreover have "count_list ?fp c = 0"
        using digits_free[of ?fp c] assms(2) by (auto dest: set_takeWhileD)
      moreover have "count_list t c = count_list ?fp c + count_list ?r2 c"
        by (metis count_list_append takeWhile_dropWhile_id)
      ultimately show ?thesis using Cons True by auto
    next
      case False
      from assms(1) Cons False obtain e where "exponent ?r1 = (e, [])"
        by (auto simp: strtod_def Let_def split: if_splits prod.splits)
      then have "count_list ?r1 c = 0" using exponent_whole assms(2,3) by blast
      then show ?thesis by simp
    qed
  qed
  with ip show ?thesis by (metis s count_list_append add_0)
qed

lemma lower_literal:
  assumes "lower s = l" and "c \<notin> set l" and "c < 65 \<or> 90 < c"
  shows "count_list s c = 0"
proof -
  have "c \<in> set s \<Longrightarrow> c \<in> set (lower s)"
    using assms(3) by (force simp: lower_def)
  with assms(1,2) show ?thesis by (auto simp: count_list_0_iff)
qed

lemma parse_inf_or_nan_whole:
  assumes "parse_inf_or_nan neg s = Some v" and "c = 46 \<or> c = 63"
  shows "count_list s c = 0"
proof -
  from assms(1) consider "lower s = u ''inf''" | "lower s = u ''infinity''" | "lower s = u ''nan''"
    by (auto simp: parse_inf_or_nan_def split: if_splits)
  then show ?thesis
    using assms(2) by cases (erule lower_literal; auto simp: u_def)+
qed

lemma string_to_double_whole:
  assumes "string_to_double s = Some v" and "c = 46 \<or> c = 63"
  shows "count_list s c \<le> (if c = 46 then 1 else 0)"
proof -
  obtain neg r where sp: "split_sign s = (neg, r)" by (cases "split_sign s")
  have nd: "\<not> is_digit c" "c \<notin> {43, 45, 69, 101}"
    using assms(2) by (auto simp: is_digit_def)
  have "count_list r c \<le> (if c = 46 then 1 else 0)"
  proof (cases "strtod r")
    case None
    with assms(1) sp have "parse_inf_or_nan neg r = Some v"
      by (simp add: string_to_double_def)
    then show ?thesis using parse_inf_or_nan_whole assms(2) by simp
  next
    case (Some p)
    with assms(1) sp obtain x where "strtod r = Some (x, [])"
      by (cases p) (auto simp: string_to_double_def split: if_splits)
    then show ?thesis using strtod_whole nd by blast
  qed
  moreover have "count_list s c = count_list r c"
    using split_sign_keeps[OF sp] assms(2) by auto
  ultimately show ?thesis by simp
qed

lemma transform_keeps:
  "63 \<in> set (transform td s) \<or> count_list (transform td s) 46 = count_list s 46"
  by (induction s) (auto split: option.splits)

lemma float_py_two_periods:
  assumes "2 \<le> count_list s 46"
  shows "float_py td s = Inl ValueError"
proof (rule ccontr)
  assume "float_py td s \<noteq> Inl ValueError"
  define a where "a = (if list_all (\<lambda>c. c < 128) s then s else transform td s)"
  define b where "b = filter (\<lambda>c. c \<noteq> 95) (ascii_strip a)"
  from \<open>float_py td s \<noteq> Inl ValueError\<close> obtain v where v: "string_to_double b = Some v"
    by (auto simp: float_py_def Let_def a_def b_def split: if_splits option.splits)
  have cnt: "count_list b c = count_list a c" "c \<in> set b \<longleftrightarrow> c \<in> set a" if "c = 46 \<or> c = 63" for c
    using that ascii_strip_keeps[of c a] by (auto simp: b_def count_filter ascii_isspace_def)
  have "count_list b 46 \<le> 1" "count_list b 63 = 0"
    using string_to_double_whole[OF v, of 46] string_to_double_whole[OF v, of 63] by auto
  then have "count_list a 46 \<le> 1" "63 \<notin> set a"
    using cnt by (auto simp: count_list_0_iff)
  then show False
    using assms transform_keeps[of td s] by (auto simp: a_def split: if_splits)
qed


lemma count_replace_comma:
  "count_list (replace 44 [46] t) 46 = count_list t 44 + count_list t 46"
  by (induction t) (auto simp: replace_one)

lemma count_remove_periods: "count_list (replace 46 [] t) 44 = count_list t 44"
  by (simp add: replace_nil count_filter)

lemma no_periods_left: "count_list (replace 46 [] t) 46 = 0"
  by (simp add: replace_nil)

lemma single_comma_rule:
  assumes "count_list s 44 = 1"
  shows "replace 44 [46] (replace 46 [] s) = last_comma_decimal s"
proof -
  let ?t = "replace 46 [] s"
  have "count_list ?t 44 = Suc 0" using assms by (simp add: count_remove_periods)
  then obtain pref rest where t: "?t = pref @ 44 # rest" and p: "44 \<notin> set pref"
    and r: "count_list rest 44 = 0"
    using count_list_Suc_split_first by metis
  from r have r': "44 \<notin> set rest" by (simp add: count_list_0_iff)
  have tw: "takeWhile (\<lambda>c. c \<noteq> 44) (rev rest @ 44 # rev pref) = rev rest"
    using r' by (subst takeWhile_tail) auto
  have dw: "dropWhile (\<lambda>c. c \<noteq> 44) (rev rest @ 44 # rev pref) = 44 # rev pref"
    using r' by (subst dropWhile_append3) auto
  have "last_comma_decimal s = replace 44 [] pref @ [46] @ rest"
    unfolding last_comma_decimal_def Let_def t by (simp add: tw dw)
  also have "replace 44 [] pref = pref"
    using p by (rule replace_absent)
  finally have 1: "last_comma_decimal s = pref @ 46 # rest" by simp
  have "replace 44 [46] (pref @ 44 # rest) = replace 44 [46] pref @ 46 # replace 44 [46] rest"
    by (simp add: replace_def)
  then have "replace 44 [46] ?t = pref @ 46 # rest"
    unfolding t using p r' by (simp add: replace_absent)
  with 1 show ?thesis by simp
qed

text \<open>
  C2, as the code has it. When the cleaned string has both a period and a comma,
  \<^verbatim>\<open>parse_amount\<close> removes every period, turns every comma into a period and converts
  the result. With exactly one comma this is the rule of the specification, the comma
  being the decimal separator. With two or more commas the result has two or more periods
  and the conversion fails with \<^verbatim>\<open>ValueError\<close>.
\<close>

theorem parse_amount_both_separators:
  "contains 46 (cleaned s) \<Longrightarrow> contains 44 (cleaned s) \<Longrightarrow>
   parse_amount td (Some s) = float_py td (replace 44 [46] (replace 46 [] (cleaned s)))
   \<and> (count_list (cleaned s) 44 = 1 \<longrightarrow>
        parse_amount td (Some s) = float_py td (last_comma_decimal (cleaned s)))
   \<and> (2 \<le> count_list (cleaned s) 44 \<longrightarrow> parse_amount td (Some s) = Inl ValueError)"
proof -
  assume a: "contains 46 (cleaned s)" "contains 44 (cleaned s)"
  let ?w = "replace 44 [46] (replace 46 [] (cleaned s))"
  from a have ne: "cleaned s \<noteq> []" by (auto simp: contains_def)
  have p: "parse_amount td (Some s) = float_py td ?w"
    using a ne by (simp add: parse_amount_def)
  have "count_list ?w 46 = count_list (cleaned s) 44"
    by (simp add: count_replace_comma count_remove_periods no_periods_left)
  then have "2 \<le> count_list (cleaned s) 44 \<Longrightarrow> float_py td ?w = Inl ValueError"
    using float_py_two_periods by simp
  then show ?thesis
    using p single_comma_rule[of "cleaned s"] by simp
qed

theorem parse_amount_both_separators_witness:
  "contains 46 (cleaned ([EURO, 32] @ u ''1.234,50''))
   \<and> contains 44 (cleaned ([EURO, 32] @ u ''1.234,50''))
   \<and> count_list (cleaned ([EURO, 32] @ u ''1.234,50'')) 44 = 1
   \<and> parse_amount Map.empty (Some ([EURO, 32] @ u ''1.234,50'')) = Inr (Fin (12345 / 10))
   \<and> 2 \<le> count_list (cleaned (u ''1.234,5,6'')) 44
   \<and> contains 46 (cleaned (u ''1.234,5,6''))
   \<and> parse_amount Map.empty (Some (u ''1.234,5,6'')) = Inl ValueError"
  using parse_amount_both_separators[of "[EURO, 32] @ u ''1.234,50''" Map.empty]
    parse_amount_both_separators[of "u ''1.234,5,6''" Map.empty]
  by (simp add: codec_defs)

text \<open>
  C2 as stated would parse "1.234,5,6" as 12345.6, the last comma being the decimal
  separator and the first one dropped. The code raises \<^verbatim>\<open>ValueError\<close>.
\<close>

theorem parse_amount_second_comma:
  "contains 46 (cleaned (u ''1.234,5,6'')) \<and> contains 44 (cleaned (u ''1.234,5,6''))
   \<and> parse_amount Map.empty (Some (u ''1.234,5,6'')) = Inl ValueError
   \<and> last_comma_decimal (cleaned (u ''1.234,5,6'')) = u ''12345.6''
   \<and> float_py Map.empty (last_comma_decimal (cleaned (u ''1.234,5,6''))) = Inr (Fin (123456 / 10))"
  by (simp add: codec_defs last_comma_decimal_def)

text \<open>
  C9. When the cleaned string has two or more commas and no period, \<^verbatim>\<open>parse_amount\<close>
  fails with \<^verbatim>\<open>ValueError\<close>: every comma becomes a period, and no string with two periods
  is a float.
\<close>

theorem parse_amount_commas_only:
  "2 \<le> count_list (cleaned s) 44 \<Longrightarrow> \<not> contains 46 (cleaned s) \<Longrightarrow>
   parse_amount td (Some s) = Inl ValueError"
proof -
  assume a: "2 \<le> count_list (cleaned s) 44" "\<not> contains 46 (cleaned s)"
  from a(1) have ne: "cleaned s \<noteq> []" by auto
  have "count_list (cleaned s) 44 \<noteq> 0" using a(1) by simp
  then have c: "contains 44 (cleaned s)"
    unfolding contains_def count_list_0_iff by simp
  have "2 \<le> count_list (replace 44 [46] (cleaned s)) 46"
    using a(1) by (simp add: count_replace_comma)
  then have "float_py td (replace 44 [46] (cleaned s)) = Inl ValueError"
    by (rule float_py_two_periods)
  then show ?thesis
    using a(2) c ne by (simp add: parse_amount_def)
qed

theorem parse_amount_commas_only_witness:
  "2 \<le> count_list (cleaned (u ''1,234,567'')) 44 \<and> \<not> contains 46 (cleaned (u ''1,234,567''))
   \<and> parse_amount Map.empty (Some (u ''1,234,567'')) = Inl ValueError"
  using parse_amount_commas_only[of "u ''1,234,567''" Map.empty]
  by (simp add: codec_defs)

section \<open>A minus sign in front of an amount\<close>

lemma strip_around:
  "\<not> uni_isspace c \<Longrightarrow>
   strip (pre @ c # rest) = dropWhile uni_isspace pre @ c # rev (dropWhile uni_isspace (rev rest))"
  by (simp add: strip_def dropWhile_append3)

lemma ascii_strip_around:
  "\<not> ascii_isspace c \<Longrightarrow>
   ascii_strip (pre @ c # rest)
     = dropWhile ascii_isspace pre @ c # rev (dropWhile ascii_isspace (rev rest))"
  by (simp add: ascii_strip_def dropWhile_append3)

lemma cleaned_filter:
  "cleaned s = filter (\<lambda>x. x \<noteq> EURO \<and> x \<noteq> 32 \<and> x \<noteq> NBSP) (strip s)"
  by (simp add: cleaned_def replace_nil conj_commute conj_left_commute)

lemma digit_plain:
  "is_digit c \<Longrightarrow> \<not> uni_isspace c \<and> \<not> ascii_isspace c \<and> c \<noteq> EURO \<and> c \<noteq> NBSP \<and> c < 127"
  by (auto simp: is_digit_def uni_isspace_def ascii_isspace_def EURO_def NBSP_def)

lemma cleaned_minus:
  assumes "starts_with_digit t"
  shows "\<exists>c q. is_digit c \<and> cleaned t = c # q \<and> cleaned (45 # t) = 45 # c # q"
proof -
  let ?P = "\<lambda>c. c = EURO \<or> c = 32 \<or> c = NBSP"
  let ?keep = "\<lambda>x. x \<noteq> EURO \<and> x \<noteq> 32 \<and> x \<noteq> NBSP"
  from assms obtain c rest where d: "dropWhile ?P t = c # rest" and c: "is_digit c"
    by (auto simp: starts_with_digit_def split: list.splits)
  define pre where "pre = takeWhile ?P t"
  have t: "t = pre @ c # rest"
    unfolding pre_def using d by (metis takeWhile_dropWhile_id)
  have pre: "\<forall>x\<in>set pre. ?P x"
    unfolding pre_def by (auto dest: set_takeWhileD)
  define r where "r = rev (dropWhile uni_isspace (rev rest))"
  have nsp: "\<not> uni_isspace c" using digit_plain[OF c] by simp
  have s1: "strip t = dropWhile uni_isspace pre @ c # r"
    unfolding t r_def using nsp by (rule strip_around)
  have "strip (45 # t) = strip ((45 # pre) @ c # rest)" by (simp add: t)
  also have "\<dots> = dropWhile uni_isspace (45 # pre) @ c # r"
    unfolding r_def using nsp by (rule strip_around)
  also have "\<dots> = 45 # pre @ c # r" by (simp add: uni_isspace_def)
  finally have s2: "strip (45 # t) = 45 # pre @ c # r" .
  have f1: "filter ?keep pre = []" using pre by (auto simp: filter_empty_conv)
  have "\<forall>x\<in>set (dropWhile uni_isspace pre). ?P x"
    using pre by (auto dest: set_dropWhileD)
  then have f2: "filter ?keep (dropWhile uni_isspace pre) = []"
    by (auto simp: filter_empty_conv)
  have k: "?keep c" "?keep 45"
    using c by (auto simp: is_digit_def EURO_def NBSP_def)
  have "cleaned t = c # filter ?keep r"
    unfolding cleaned_filter s1 using f2 k by simp
  moreover have "cleaned (45 # t) = 45 # c # filter ?keep r"
    unfolding cleaned_filter s2 using f1 k by simp
  ultimately show ?thesis using c by blast
qed

lemma string_to_double_minus:
  assumes "is_digit c" and "string_to_double (c # y) = Some v"
  shows "string_to_double (45 # c # y) = Some (fneg v)"
proof -
  have c: "c \<noteq> 45" "c \<noteq> 43" using assms(1) by (auto simp: is_digit_def)
  have s1: "split_sign (c # y) = (False, c # y)" using c by (simp add: split_sign_def)
  have s2: "split_sign (45 # c # y) = (True, c # y)" by (simp add: split_sign_def)
  show ?thesis
  proof (cases "strtod (c # y)")
    case None
    with assms(2) have "parse_inf_or_nan False (c # y) = Some v"
      by (simp add: string_to_double_def s1)
    then have "parse_inf_or_nan True (c # y) = Some (fneg v)"
      by (auto simp: parse_inf_or_nan_def split: if_splits)
    with None show ?thesis by (simp add: string_to_double_def s2)
  next
    case (Some p)
    with assms(2) show ?thesis
      by (cases p) (auto simp: string_to_double_def s1 s2 split: if_splits)
  qed
qed

lemma float_py_minus:
  assumes c: "is_digit c" and v: "float_py td (c # x) = Inr v"
  shows "float_py td (45 # c # x) = Inr (fneg v)"
proof -
  define a where "a = (if list_all (\<lambda>c. c < 128) x then x else transform td x)"
  define r where "r = rev (dropWhile ascii_isspace (rev a))"
  have plain: "\<not> ascii_isspace c" "c < 127" "c \<noteq> 95"
    using c by (auto simp: is_digit_def ascii_isspace_def)
  have a1: "(if list_all (\<lambda>c. c < 128) (c # x) then c # x else transform td (c # x)) = c # a"
    using plain by (simp add: a_def)
  have a2: "(if list_all (\<lambda>c. c < 128) (45 # c # x) then 45 # c # x else transform td (45 # c # x))
      = 45 # c # a"
    using plain by (simp add: a_def)
  have b1: "ascii_strip (c # a) = c # r"
    using ascii_strip_around[of c "[]" a] plain by (simp add: r_def)
  have b2: "ascii_strip (45 # c # a) = 45 # c # r"
    using ascii_strip_around[of c "[45]" a] plain by (simp add: r_def ascii_isspace_def)
  let ?y = "filter (\<lambda>c. c \<noteq> 95) r"
  from v have ok: "underscores_ok 0 (c # r)"
    and "\<exists>w. string_to_double (c # ?y) = Some w \<and> w = v"
    unfolding float_py_def Let_def a1 b1 using plain
    by (auto split: if_splits option.splits)
  then have "string_to_double (c # ?y) = Some v" by simp
  then have "string_to_double (45 # c # ?y) = Some (fneg v)"
    using c by (rule string_to_double_minus[rotated])
  moreover have "underscores_ok 0 (45 # c # r)"
    using ok plain by simp
  ultimately show ?thesis
    unfolding float_py_def Let_def a2 b2 using plain by simp
qed

text \<open>
  C10. \<^verbatim>\<open>parse_amount\<close> keeps a leading minus sign: for an input that it accepts and that
  begins, after any currency signs and blanks, with a digit, the same input with a minus
  sign in front is accepted with the negated value. So "-1.234,50" gives -1234.5, and the
  result of \<^verbatim>\<open>parse_amount\<close> can be negative.
\<close>

theorem parse_amount_keeps_minus:
  "parse_amount td (Some t) = Inr v \<Longrightarrow> starts_with_digit t \<Longrightarrow>
   parse_amount td (Some (45 # t)) = Inr (fneg v)"
proof -
  assume v: "parse_amount td (Some t) = Inr v" and d: "starts_with_digit t"
  from cleaned_minus[OF d] obtain c q where c: "is_digit c" and q: "cleaned t = c # q"
    and m: "cleaned (45 # t) = 45 # c # q" by blast
  have k: "c \<noteq> 44" "c \<noteq> 46" using c by (auto simp: is_digit_def)
  have r: "replace a new (45 # c # y) = 45 # c # replace a new y" if "a = 44 \<or> a = 46" for a new y
    using that k by (auto simp: replace_def)
  have r': "replace a new (c # y) = c # replace a new y" if "a = 44 \<or> a = 46" for a new y
    using that k by (auto simp: replace_def)
  have cont: "contains a (45 # c # q) = contains a (c # q)" if "a = 44 \<or> a = 46" for a
    using that by (auto simp: contains_def)
  show ?thesis
    using v c
    by (auto simp: parse_amount_def Let_def q m cont r r' float_py_minus split: if_splits)
qed

theorem parse_amount_keeps_minus_witness:
  "parse_amount Map.empty (Some (u ''1.234,50'')) = Inr (Fin (12345 / 10))
   \<and> starts_with_digit (u ''1.234,50'')
   \<and> parse_amount Map.empty (Some (u ''-1.234,50'')) = Inr (Fin (- (12345 / 10)))"
  using parse_amount_keeps_minus[of Map.empty "u ''1.234,50''" "Fin (12345 / 10)"]
  by (simp add: codec_defs starts_with_digit_def)

section \<open>Two fractional digits, written and read back\<close>

lemma str_nat_digits: "\<forall>c\<in>set (str_nat n). is_digit c"
proof (induction n rule: str_nat.induct)
  case (1 n)
  show ?case
  proof (cases "n < 10")
    case True
    then show ?thesis by (subst str_nat.simps) (simp add: is_digit_def)
  next
    case False
    have "n mod 10 < 10" by simp
    then have "is_digit (48 + n mod 10)" unfolding is_digit_def by linarith
    with False 1 show ?thesis by (subst str_nat.simps) auto
  qed
qed

lemma str_nat_nonempty: "str_nat n \<noteq> []"
  by (subst str_nat.simps) simp

lemma nat_of_digits_snoc: "nat_of_digits (xs @ [c]) = 10 * nat_of_digits xs + (c - 48)"
  by (simp add: nat_of_digits_def)

lemma nat_of_digits_str_nat: "nat_of_digits (str_nat n) = n"
proof (induction n rule: str_nat.induct)
  case (1 n)
  show ?case
  proof (cases "n < 10")
    case True
    then show ?thesis by (subst str_nat.simps) (simp add: nat_of_digits_def)
  next
    case False
    with 1 show ?thesis
      by (subst str_nat.simps) (simp add: nat_of_digits_snoc)
  qed
qed

lemma two_digits_digits: "f < 100 \<Longrightarrow> \<forall>c\<in>set (two_digits f). is_digit c"
proof -
  assume "f < 100"
  then have "f div 10 < 10" "f mod 10 < 10" by auto
  then show ?thesis unfolding two_digits_def is_digit_def by auto
qed

lemma nat_of_digits_two:
  "f < 100 \<Longrightarrow> nat_of_digits (ds @ two_digits f) = 100 * nat_of_digits ds + f"
proof -
  assume "f < 100"
  have "ds @ two_digits f = (ds @ [48 + f div 10]) @ [48 + f mod 10]"
    by (simp add: two_digits_def)
  then show ?thesis by (simp only: nat_of_digits_snoc) simp
qed

lemma filter_absent: "c \<notin> set s \<Longrightarrow> filter (\<lambda>x. x \<noteq> c) s = s"
  by (induction s) auto

lemma dropWhile_none: "\<forall>c\<in>set s. \<not> P c \<Longrightarrow> dropWhile P s = s"
  by (cases s) auto

lemma ascii_strip_plain: "\<forall>c\<in>set s. \<not> ascii_isspace c \<Longrightarrow> ascii_strip s = s"
  by (simp add: ascii_strip_def dropWhile_none)

lemma strip_plain: "\<forall>c\<in>set s. \<not> uni_isspace c \<Longrightarrow> strip s = s"
  by (simp add: strip_def dropWhile_none)

lemma underscores_ok_none: "95 \<notin> set s \<Longrightarrow> p \<noteq> 95 \<Longrightarrow> underscores_ok p s"
  by (induction s arbitrary: p) auto

lemma strtod_fixed:
  assumes "\<forall>c\<in>set ds. is_digit c" and "ds \<noteq> []" and "\<forall>c\<in>set fs. is_digit c"
  shows "strtod (ds @ 46 # fs) = Some (of_nat (nat_of_digits (ds @ fs)) / 10 ^ length fs, [])"
proof -
  have nd: "\<not> is_digit 46" by (simp add: is_digit_def)
  have t: "takeWhile is_digit (ds @ 46 # fs) = ds"
    using assms(1) nd by (simp add: takeWhile_tail)
  have d: "dropWhile is_digit (ds @ 46 # fs) = 46 # fs"
    using assms(1) nd by (simp add: dropWhile_append3)
  have f: "takeWhile is_digit fs = fs" "dropWhile is_digit fs = []"
    using assms(3) by simp_all
  show ?thesis
    unfolding strtod_def Let_def t d using assms(2)
    by (simp add: f exponent_def scale10_def)
qed

lemma float_py_fixed:
  assumes "\<forall>c\<in>set ds. is_digit c" and "ds \<noteq> []" and "\<forall>c\<in>set fs. is_digit c"
  shows "float_py td ((if neg then [45] else []) @ ds @ 46 # fs)
     = Inr (Fin ((if neg then - 1 else 1) * (of_nat (nat_of_digits (ds @ fs)) / 10 ^ length fs)))"
proof -
  let ?w = "ds @ 46 # fs"
  let ?s = "(if neg then [45] else []) @ ?w"
  have chars: "\<forall>c\<in>set ?s. is_digit c \<or> c = 45 \<or> c = 46"
    using assms(1,3) by auto
  have pl: "is_digit c \<or> c = 45 \<or> c = 46 \<Longrightarrow> c < 128 \<and> \<not> ascii_isspace c \<and> c \<noteq> 95" for c
    by (auto simp: is_digit_def ascii_isspace_def)
  have a: "list_all (\<lambda>c. c < 128) ?s"
    unfolding list_all_iff using chars pl by blast
  have b: "ascii_strip ?s = ?s"
    using chars pl by (intro ascii_strip_plain) blast
  have c: "95 \<notin> set ?s" using chars pl by blast
  then have ok: "underscores_ok 0 ?s" by (rule underscores_ok_none) simp
  have fl: "filter (\<lambda>c. c \<noteq> 95) ?s = ?s"
    using c by (rule filter_absent)
  obtain d ds' where ds: "ds = d # ds'" using assms(2) by (cases ds) auto
  then have "is_digit d" using assms(1) by simp
  then have d: "d \<noteq> 45" "d \<noteq> 43" by (auto simp: is_digit_def)
  have sp: "split_sign ?s = (neg, ?w)"
    using d by (simp add: split_sign_def ds)
  have "string_to_double ?s
      = Some (Fin ((if neg then - 1 else 1) * (of_nat (nat_of_digits (ds @ fs)) / 10 ^ length fs)))"
    unfolding string_to_double_def sp using strtod_fixed[OF assms] by simp
  then show ?thesis
    unfolding float_py_def Let_def using a b ok fl by simp
qed

lemma floor_fraction:
  obtains f d where "q = of_int f + d" and "0 \<le> d" and "d < 1" and "\<lfloor>q\<rfloor> = f"
proof -
  have "q = of_int \<lfloor>q\<rfloor> + (q - of_int \<lfloor>q\<rfloor>)" by simp
  moreover have "0 \<le> q - of_int \<lfloor>q\<rfloor>" "q - of_int \<lfloor>q\<rfloor> < 1" by linarith+
  ultimately show ?thesis using that by blast
qed

lemma round_half_even_split:
  assumes "0 \<le> d" and "d < 1"
  shows "round_half_even (of_int f + d)
     = (if d < 1 / 2 then f else if 1 / 2 < d then f + 1 else if even f then f else f + 1)"
proof -
  have "\<lfloor>of_int f + d\<rfloor> = f" using assms by linarith
  then show ?thesis by (simp add: round_half_even_def Let_def)
qed

lemma round_half_even_uminus: "round_half_even (- q) = - round_half_even q"
proof -
  obtain f d where q: "q = of_int f + d" and d: "0 \<le> d" "d < 1"
    using floor_fraction[of q] by blast
  show ?thesis
  proof (cases "d = 0")
    case True
    have "round_half_even (of_int (- f) + 0) = - f" "round_half_even (of_int f + 0) = f"
      by (subst round_half_even_split; simp)+
    with True q show ?thesis by simp
  next
    case False
    then have d': "0 \<le> 1 - d" "1 - d < 1" using d by auto
    have "- q = of_int (- f - 1) + (1 - d)" by (simp add: q)
    then have "round_half_even (- q)
        = (if 1 - d < 1 / 2 then - f - 1 else if 1 / 2 < 1 - d then - f - 1 + 1
           else if even (- f - 1) then - f - 1 else - f - 1 + 1)"
      using round_half_even_split[OF d', of "- f - 1"] by simp
    moreover have "round_half_even q
        = (if d < 1 / 2 then f else if 1 / 2 < d then f + 1 else if even f then f else f + 1)"
      unfolding q using d by (rule round_half_even_split)
    ultimately show ?thesis by auto
  qed
qed

lemma round_half_even_nonneg: "0 \<le> q \<Longrightarrow> 0 \<le> round_half_even q"
  by (auto simp: round_half_even_def Let_def)

lemma round_half_even_near: "\<bar>of_int (round_half_even q) - q\<bar> \<le> 1 / 2"
proof -
  obtain f d where q: "q = of_int f + d" and d: "0 \<le> d" "d < 1"
    using floor_fraction[of q] by blast
  show ?thesis
    unfolding q round_half_even_split[OF d] using d by (auto simp: abs_if)
qed

lemma cents_value:
  "(if x < 0 then - 1 else 1) * (of_nat (cents x) / 100) = round2 x"
proof (cases "x < 0")
  case True
  then have "\<bar>x\<bar> * 100 = - (x * 100)" by simp
  then have r: "round_half_even (\<bar>x\<bar> * 100) = - round_half_even (x * 100)"
    by (simp add: round_half_even_uminus)
  have "0 \<le> round_half_even (\<bar>x\<bar> * 100)" by (rule round_half_even_nonneg) simp
  then have "of_nat (cents x) = (of_int (round_half_even (\<bar>x\<bar> * 100)) :: rat)"
    by (simp add: cents_def)
  with True r show ?thesis by (simp add: round2_def)
next
  case False
  have "0 \<le> round_half_even (\<bar>x\<bar> * 100)" by (rule round_half_even_nonneg) simp
  then have "of_nat (cents x) = (of_int (round_half_even (\<bar>x\<bar> * 100)) :: rat)"
    by (simp add: cents_def)
  with False show ?thesis by (simp add: round2_def)
qed

lemma float_py_format_f2:
  "float_py td (format_f2 False (Fin x)) = Inr (Fin (round2 x))"
proof -
  let ?ds = "str_nat (cents x div 100)" and ?fs = "two_digits (cents x mod 100)"
  have f: "\<forall>c\<in>set ?fs. is_digit c" by (rule two_digits_digits) simp
  have "nat_of_digits (?ds @ ?fs) = cents x"
    by (simp add: nat_of_digits_two nat_of_digits_str_nat)
  moreover have "length ?fs = 2" by (simp add: two_digits_def)
  ultimately have "float_py td ((if x < 0 then [45] else []) @ ?ds @ 46 # ?fs)
      = Inr (Fin ((if x < 0 then - 1 else 1) * (of_nat (cents x) / 100)))"
    using float_py_fixed[OF str_nat_digits str_nat_nonempty f, of td "x < 0" "cents x div 100"]
    by simp
  then have "float_py td ((if x < 0 then [45] else []) @ ?ds @ 46 # ?fs) = Inr (Fin (round2 x))"
    by (simp only: cents_value)
  then show ?thesis by simp
qed

section \<open>Formatting an amount and parsing it back\<close>

lemma group_rev_filter: "44 \<notin> set r \<Longrightarrow> filter (\<lambda>c. c \<noteq> 44) (group_rev r) = r"
  by (induction r rule: group_rev.induct) auto

lemma group_rev_set: "set (group_rev r) \<subseteq> insert 44 (set r)"
  by (induction r rule: group_rev.induct) auto

lemma group3_filter: "44 \<notin> set ds \<Longrightarrow> filter (\<lambda>c. c \<noteq> 44) (group3 ds) = ds"
  using group_rev_filter[of "rev ds"] by (simp add: group3_def flip: rev_filter)

lemma group3_set: "set (group3 ds) \<subseteq> insert 44 (set ds)"
  using group_rev_set[of "rev ds"] by (simp add: group3_def)

lemma replace_exchange:
  "88 \<notin> set s \<Longrightarrow> replace 88 [46] (replace 46 [44] (replace 44 [88] s)) = map exchange s"
  by (induction s) (auto simp: replace_def exchange_def)

lemma exchange_digits: "\<forall>c\<in>set ds. is_digit c \<Longrightarrow> map exchange ds = ds"
  by (induction ds) (auto simp: exchange_def is_digit_def)

lemma digits_no_separator:
  "\<forall>c\<in>set ds. is_digit c \<Longrightarrow> 44 \<notin> set ds \<and> 46 \<notin> set ds \<and> 88 \<notin> set ds"
  by (auto simp: is_digit_def)

lemma exchanged_group:
  assumes "\<forall>c\<in>set ds. is_digit c"
  shows "filter (\<lambda>c. c \<noteq> 46) (map exchange (group3 ds)) = ds"
    and "46 \<notin> set (map exchange (group3 ds)) \<Longrightarrow> map exchange (group3 ds) = ds"
    and "\<forall>c\<in>set (map exchange (group3 ds)). is_digit c \<or> c = 46"
proof -
  have g: "\<forall>c\<in>set (group3 ds). is_digit c \<or> c = 44"
    using group3_set[of ds] assms by auto
  have e: "(exchange c \<noteq> 46) = (c \<noteq> 44)" for c
    by (simp add: exchange_def)
  have "filter (\<lambda>c. c \<noteq> 46) (map exchange (group3 ds))
      = map exchange (filter (\<lambda>c. c \<noteq> 44) (group3 ds))"
    by (simp add: filter_map comp_def e)
  also have "\<dots> = ds"
    using assms digits_no_separator[OF assms] by (simp add: group3_filter exchange_digits)
  finally show 1: "filter (\<lambda>c. c \<noteq> 46) (map exchange (group3 ds)) = ds" .
  show "46 \<notin> set (map exchange (group3 ds)) \<Longrightarrow> map exchange (group3 ds) = ds"
    using 1 by (metis filter_absent)
  show "\<forall>c\<in>set (map exchange (group3 ds)). is_digit c \<or> c = 46"
    using g by (auto simp: exchange_def is_digit_def)
qed

lemma parse_format_amount:
  "parse_amount td (Some (format_amount (Fin x))) = float_py td (format_f2 False (Fin x))"
proof -
  define sg :: ustr where "sg = (if x < 0 then [45] else [])"
  define ds where "ds = str_nat (cents x div 100)"
  define fs where "fs = two_digits (cents x mod 100)"
  define g where "g = map exchange (group3 ds)"
  have dd: "\<forall>c\<in>set ds. is_digit c" unfolding ds_def by (rule str_nat_digits)
  have df: "\<forall>c\<in>set fs. is_digit c" unfolding fs_def by (rule two_digits_digits) simp
  have dg: "\<forall>c\<in>set g. is_digit c \<or> c = 46"
    unfolding g_def using dd by (rule exchanged_group)
  have raw: "format_f2 True (Fin x) = sg @ group3 ds @ 46 # fs"
    by (simp add: sg_def ds_def fs_def)
  have "\<forall>c\<in>set (format_f2 True (Fin x)). is_digit c \<or> c = 44 \<or> c = 45 \<or> c = 46"
    unfolding raw using group3_set[of ds] dd df by (auto simp: sg_def)
  then have "88 \<in> set (format_f2 True (Fin x)) \<Longrightarrow> is_digit 88 \<or> (88::nat) = 44 \<or> (88::nat) = 45 \<or> (88::nat) = 46"
    by blast
  then have "88 \<notin> set (format_f2 True (Fin x))"
    by (auto simp: is_digit_def)
  then have "format_amount (Fin x) = map exchange (format_f2 True (Fin x)) @ [EURO]"
    by (simp add: format_amount_def replace_exchange)
  also have "map exchange (format_f2 True (Fin x)) = sg @ g @ 44 # fs"
    unfolding raw using df by (simp add: g_def exchange_digits) (simp add: sg_def exchange_def)
  finally have fa: "format_amount (Fin x) = (sg @ g @ 44 # fs) @ [EURO]" by simp
  let ?y = "sg @ g @ 44 # fs"
  have ch: "\<forall>c\<in>set ?y. is_digit c \<or> c = 44 \<or> c = 45 \<or> c = 46"
    using dg df by (auto simp: sg_def)
  have plain: "is_digit c \<or> c = 44 \<or> c = 45 \<or> c = 46
      \<Longrightarrow> \<not> uni_isspace c \<and> c \<noteq> EURO \<and> c \<noteq> 32 \<and> c \<noteq> NBSP" for c
    by (auto simp: is_digit_def uni_isspace_def EURO_def NBSP_def)
  have "\<forall>c\<in>set (?y @ [EURO]). \<not> uni_isspace c"
    using ch plain by (auto simp: uni_isspace_def EURO_def)
  then have st: "strip (?y @ [EURO]) = ?y @ [EURO]" by (rule strip_plain)
  define y where "y = ?y"
  have "filter (\<lambda>x. x \<noteq> EURO \<and> x \<noteq> 32 \<and> x \<noteq> NBSP) y = y"
    unfolding y_def using ch plain by (intro filter_True) blast
  then have "cleaned (y @ [EURO]) = y"
    using st by (simp add: cleaned_filter y_def[symmetric])
  then have cl: "cleaned (format_amount (Fin x)) = ?y"
    by (simp only: fa y_def)
  have c44: "contains 44 ?y" by (simp add: contains_def)
  have n44: "44 \<notin> set sg" "44 \<notin> set g" "44 \<notin> set fs" "46 \<notin> set sg" "46 \<notin> set fs"
    using dg df by (auto simp: sg_def is_digit_def)
  have r44: "replace 44 [46] (sg @ w @ 44 # fs) = sg @ w @ 46 # fs" if "44 \<notin> set w" for w
  proof -
    have "replace 44 [46] (sg @ w @ 44 # fs)
        = replace 44 [46] sg @ replace 44 [46] w @ 46 # replace 44 [46] fs"
      by (simp add: replace_def)
    then show ?thesis using that n44 by (simp add: replace_absent)
  qed
  have target: "format_f2 False (Fin x) = sg @ ds @ 46 # fs"
    by (simp add: sg_def ds_def fs_def)
  have no44: "44 \<notin> set ds" using dd by (auto simp: is_digit_def)
  show ?thesis
  proof (cases "contains 46 ?y")
    case True
    have "replace 46 [] ?y = sg @ filter (\<lambda>c. c \<noteq> 46) g @ 44 # fs"
      using n44 by (simp add: replace_nil filter_absent)
    also have "filter (\<lambda>c. c \<noteq> 46) g = ds"
      unfolding g_def using dd by (rule exchanged_group)
    finally have "replace 44 [46] (replace 46 [] ?y) = sg @ ds @ 46 # fs"
      using r44[OF no44] by simp
    with True c44 show ?thesis
      unfolding target by (simp add: parse_amount_def cl)
  next
    case False
    then have "46 \<notin> set g" by (simp add: contains_def)
    then have "g = ds" unfolding g_def using dd exchanged_group(2) by blast
    then have "replace 44 [46] ?y = sg @ ds @ 46 # fs"
      using r44[OF no44] by simp
    with False c44 show ?thesis
      unfolding target by (simp add: parse_amount_def cl)
  qed
qed

lemma round2_near: "\<bar>round2 x - x\<bar> \<le> 1 / 200"
proof -
  have "\<bar>of_int (round_half_even (x * 100)) - x * 100\<bar> \<le> 1 / 2"
    by (rule round_half_even_near)
  then show ?thesis unfolding round2_def by (simp add: abs_if field_simps split: if_splits)
qed

text \<open>
  C3. For every finite amount x, \<^verbatim>\<open>parse_amount\<close> of \<^verbatim>\<open>format_amount\<close> of x is x rounded to
  two fractional digits: a hundredth part of an integer, the nearest one to x times 100
  (half to even), and so within half a hundredth of x.
\<close>

theorem parse_format_round_trip:
  "parse_amount td (Some (format_amount (Fin x))) = Inr (Fin (round2 x))
   \<and> round2 x * 100 = of_int (round_half_even (x * 100))
   \<and> \<bar>round2 x - x\<bar> \<le> 1 / 200"
proof -
  have 1: "parse_amount td (Some (format_amount (Fin x))) = Inr (Fin (round2 x))"
    by (simp only: parse_format_amount float_py_format_f2)
  have 2: "round2 x * 100 = of_int (round_half_even (x * 100))"
    by (simp add: round2_def)
  show ?thesis using 1 2 round2_near by blast
qed

section \<open>Appending records and loading the file\<close>

lemma float_py_two_decimals: "float_py td (format_f2 False a) = Inr (two_decimals a)"
proof (cases a)
  case (Fin x)
  then show ?thesis by (simp only: float_py_format_f2 two_decimals.simps)
qed (simp_all add: codec_defs)

lemma written_row:
  "writerow fieldnames (to_dict e)
     = [date e, category e, description e, format_f2 False (amount e)]"
  by (simp add: writerow_def to_dict_def fieldnames_def u_def)

lemma reader_get_written:
  "reader_get fieldnames [a, b, c, d] (u ''date'') = Inr (Some a)"
  "reader_get fieldnames [a, b, c, d] (u ''category'') = Inr (Some b)"
  "reader_get fieldnames [a, b, c, d] (u ''description'') = Inr (Some c)"
  "reader_get fieldnames [a, b, c, d] (u ''amount'') = Inr (Some d)"
  by (simp_all add: reader_get_def fieldnames_def u_def)

lemma load_row_written:
  "load_row td fieldnames (writerow fieldnames (to_dict e)) = Inr (reloaded e)"
  unfolding written_row load_row_def
  by (simp add: reader_get_written float_py_two_decimals reloaded_def)

lemma load_rows_written:
  "load_rows td fieldnames (map (\<lambda>e. writerow fieldnames (to_dict e)) xs)
     = Inr (map reloaded xs)"
proof (induction xs)
  case Nil
  then show ?case by simp
next
  case (Cons e xs)
  have "writerow fieldnames (to_dict e) \<noteq> []" by (simp add: written_row)
  with Cons show ?case by (simp add: load_row_written)
qed

lemma add_all_snoc: "add_all (es @ [e]) t = add_expense e (add_all es t)"
  by (simp add: add_all_def)

lemma add_all_state:
  "expenses (add_all es t) = expenses t @ es
   \<and> (es \<noteq> [] \<longrightarrow> add_all es t = save_expenses (add_all es t))"
proof (induction es rule: rev_induct)
  case Nil
  then show ?case by (simp add: add_all_def)
next
  case (snoc e es)
  then show ?case
    by (simp add: add_all_snoc add_expense_def save_expenses_def)
qed

lemma init_after_appends:
  "es \<noteq> [] \<Longrightarrow>
   init_tracker td (disk (add_all es t))
     = Inr \<lparr>expenses = map reloaded (expenses t @ es), disk = disk (add_all es t)\<rparr>"
proof -
  assume ne: "es \<noteq> []"
  define s where "s = add_all es t"
  have s: "expenses s = expenses t @ es" "s = save_expenses s"
    using add_all_state[of es t] ne by (simp_all add: s_def)
  have d: "disk s = Some (fieldnames # map (\<lambda>e. writerow fieldnames (to_dict e)) (expenses s))"
    by (subst s(2)) (simp add: save_expenses_def)
  have fn: "fieldnames \<noteq> []" by (simp add: fieldnames_def)
  have "init_tracker td (disk s) = Inr \<lparr>expenses = map reloaded (expenses s), disk = disk s\<rparr>"
    unfolding d using fn
    by (simp add: init_tracker_def load_expenses_def load_rows_written)
  then show ?thesis
    unfolding s_def[symmetric] by (simp add: s(1))
qed

lemma reloaded_exact: "two_decimals (amount e) = amount e \<Longrightarrow> reloaded e = e"
  by (simp add: reloaded_def)

text \<open>
  C4, as the code has it. Appending n records to a fresh ledger and loading the file that
  the last append has written gives n records in the same order, each with the date, the
  category and the description of the original and with the amount of the original rounded
  to two fractional digits (a NaN or an infinity as it was): the file holds the amount
  with two fractional digits. The records are equal to the originals when the amounts have
  no more than two fractional digits.
\<close>

theorem append_then_load:
  "init_tracker td (disk (add_all es fresh))
     = Inr \<lparr>expenses = map reloaded es, disk = disk (add_all es fresh)\<rparr>
   \<and> length (map reloaded es) = length es
   \<and> (list_all (\<lambda>e. two_decimals (amount e) = amount e) es \<longrightarrow> map reloaded es = es)"
proof -
  have 1: "init_tracker td (disk (add_all es fresh))
     = Inr \<lparr>expenses = map reloaded es, disk = disk (add_all es fresh)\<rparr>"
  proof (cases "es = []")
    case True
    then show ?thesis
      by (simp add: add_all_def fresh_def init_tracker_def load_expenses_def)
  next
    case False
    then show ?thesis
      using init_after_appends[of es td fresh] by (simp add: fresh_def)
  qed
  have 2: "list_all (\<lambda>e. two_decimals (amount e) = amount e) es \<Longrightarrow> map reloaded es = es"
    by (induction es) (simp_all add: reloaded_exact)
  show ?thesis using 1 2 by simp
qed

theorem append_then_load_witness:
  "list_all (\<lambda>e. two_decimals (amount e) = amount e) [groceries, snack, salary]
   \<and> init_tracker Map.empty (disk (add_all [groceries, snack, salary] fresh))
       = Inr \<lparr>expenses = [groceries, snack, salary],
              disk = disk (add_all [groceries, snack, salary] fresh)\<rparr>"
proof -
  have "list_all (\<lambda>e. two_decimals (amount e) = amount e) [groceries, snack, salary]"
    by (simp add: groceries_def snack_def salary_def round2_def round_half_even_def)
  then show ?thesis
    using append_then_load[of Map.empty "[groceries, snack, salary]"] by simp
qed

text \<open>
  C4 as stated would give back every record unchanged. The entry with the amount input
  "1,234" and the sign "-" is stored with the amount -1.234, written as "-1.23", and
  loaded with the amount -1.23.
\<close>

theorem append_then_load_rounds:
  "menu_add Map.empty (date coffee) (category coffee) (description coffee) (u ''1,234'')
       (u ''-'') fresh
     = Inr (add_expense coffee fresh)
   \<and> init_tracker Map.empty (disk (add_expense coffee fresh))
       = Inr \<lparr>expenses = [coffee\<lparr>amount := Fin (- (123 / 100))\<rparr>],
              disk = disk (add_expense coffee fresh)\<rparr>
   \<and> amount coffee = Fin (- (1234 / 1000))"
proof -
  have m: "menu_add Map.empty (date coffee) (category coffee) (description coffee) (u ''1,234'')
       (u ''-'') fresh = Inr (add_expense coffee fresh)"
    by (simp add: menu_add_def apply_sign_def coffee_def codec_defs)
  have "\<lfloor>- (617 / 5) :: rat\<rfloor> = - 124" by (simp add: floor_eq_iff)
  then have "round2 (- (1234 / 1000)) = - (123 / 100)"
    by (simp add: round2_def round_half_even_def Let_def)
  then have r: "reloaded coffee = coffee\<lparr>amount := Fin (- (123 / 100))\<rparr>"
    by (simp add: reloaded_def coffee_def)
  have "init_tracker Map.empty (disk (add_all [coffee] fresh))
       = Inr \<lparr>expenses = map reloaded (expenses fresh @ [coffee]),
              disk = disk (add_all [coffee] fresh)\<rparr>"
    by (rule init_after_appends) simp
  then have "init_tracker Map.empty (disk (add_expense coffee fresh))
       = Inr \<lparr>expenses = [coffee\<lparr>amount := Fin (- (123 / 100))\<rparr>],
              disk = disk (add_expense coffee fresh)\<rparr>"
    by (simp add: add_all_def r fresh_def)
  with m show ?thesis by (simp add: coffee_def)
qed

end
